theory Spec2Isabelle
  imports Main "HOL-Library.Word" "HOL-Library.Stream"
begin

unbundle bit_operations_syntax

section \<open>One-wire bus engine (onewire.c)\<close>

text \<open>
  The engine drives one pin of port B. Its only state is the two port registers it
  writes. The line level it samples through \<open>PINB\<close> is an input of the hardware: the
  model holds the values of the successive reads of \<open>PINB\<close> as a stream. Every action
  on the line (pulling, releasing, waiting, sampling) is appended to a log, in the order
  the code performs it.
\<close>

type_synonym uint8_t = "8 word"

datatype owi_event = Pull_Line | Release_Line | Delay_us nat | Sample_Line

record owi_state =
  DDRB :: uint8_t
  PORTB :: uint8_t
  PINB :: "uint8_t stream"
  owi_bus :: "owi_event list"

definition OWI_PINMASK :: uint8_t where "OWI_PINMASK = 0x01"
definition OWI_IPINMASK :: uint8_t where "OWI_IPINMASK = 0xFE"
definition OWI_SEARCH_ROM :: uint8_t where "OWI_SEARCH_ROM = 0xF0"
definition OWI_READ_ROM :: uint8_t where "OWI_READ_ROM = 0x33"
definition OWI_MATCH_ROM :: uint8_t where "OWI_MATCH_ROM = 0x55"
definition OWI_SKIP_ROM :: uint8_t where "OWI_SKIP_ROM = 0xCC"
definition OWI_ALARM_SEARCH :: uint8_t where "OWI_ALARM_SEARCH = 0xEC"

subsection \<open>CRC-8\<close>

text \<open>
  The loop of \<open>owi_crc\<close> runs for \<open>c = 0, ..., 7\<close>; the first argument of
  \<open>owi_crc_loop\<close> is the number of iterations still to run. \<open>0x8c * feedback\<close> is
  computed in \<open>int\<close> and stored back into a byte; \<open>feedback\<close> is 0 or 1, so the
  product fits a byte.
\<close>

fun owi_crc_loop :: "nat \<Rightarrow> uint8_t \<Rightarrow> uint8_t \<Rightarrow> uint8_t" where
  "owi_crc_loop 0 databyte crc = crc"
| "owi_crc_loop (Suc k) databyte crc =
     (let feedback = (crc XOR databyte) AND 0x01;
          crc1 = drop_bit 1 crc;
          crc2 = crc1 XOR (0x8c * feedback);
          databyte1 = drop_bit 1 databyte
      in owi_crc_loop k databyte1 crc2)"

definition owi_crc :: "uint8_t \<Rightarrow> uint8_t \<Rightarrow> uint8_t" where
  "owi_crc databyte crc = owi_crc_loop 8 databyte crc"

subsection \<open>Line primitives\<close>

definition release_line :: "owi_state \<Rightarrow> owi_state" where
  "release_line s =
     s\<lparr>DDRB := DDRB s AND OWI_IPINMASK,
       PORTB := PORTB s OR OWI_PINMASK,
       owi_bus := owi_bus s @ [Release_Line]\<rparr>"

definition pull_line :: "owi_state \<Rightarrow> owi_state" where
  "pull_line s =
     s\<lparr>DDRB := DDRB s OR OWI_PINMASK,
       PORTB := PORTB s AND OWI_IPINMASK,
       owi_bus := owi_bus s @ [Pull_Line]\<rparr>"

definition delay_us :: "nat \<Rightarrow> owi_state \<Rightarrow> owi_state" where
  "delay_us n s = s\<lparr>owi_bus := owi_bus s @ [Delay_us n]\<rparr>"

text \<open>One read of the input register: the next value of the stream.\<close>

definition read_PINB :: "owi_state \<Rightarrow> uint8_t \<times> owi_state" where
  "read_PINB s =
     (shd (PINB s), s\<lparr>PINB := stl (PINB s), owi_bus := owi_bus s @ [Sample_Line]\<rparr>)"

definition owi_write_1 :: "owi_state \<Rightarrow> owi_state" where
  "owi_write_1 s = delay_us 64 (release_line (delay_us 1 (pull_line s)))"

definition owi_write_0 :: "owi_state \<Rightarrow> owi_state" where
  "owi_write_0 s = delay_us 5 (release_line (delay_us 60 (pull_line s)))"

definition owi_read_bit :: "owi_state \<Rightarrow> int \<times> owi_state" where
  "owi_read_bit s =
     (let (pin, s1) = read_PINB (delay_us 14 (release_line (delay_us 1 (pull_line s))));
          bit = (if pin AND OWI_PINMASK \<noteq> 0 then 1 else 0)
      in (bit, delay_us 45 s1))"

definition owi_detect_presence :: "owi_state \<Rightarrow> int \<times> owi_state" where
  "owi_detect_presence s =
     (let (pin, s1) = read_PINB (delay_us 60 (release_line (delay_us 480 (pull_line s))));
          presence = (if pin AND OWI_PINMASK \<noteq> 0 then 0 else 1)
      in (presence, delay_us 420 s1))"

subsection \<open>Byte loops\<close>

text \<open>
  \<open>for (uint8_t mask = 0x01; mask > 0x00; mask <<= 1)\<close>: the shift happens in a
  byte, so the mask leaves the byte after the eighth shift and the loop ends. The measure
  counts the shifts that keep the mask non-zero.
\<close>

definition mask_shifts :: "uint8_t \<Rightarrow> nat" where
  "mask_shifts bmask = card {k. k < 8 \<and> push_bit k bmask \<noteq> 0}"

lemma push_bit_ge8: "8 \<le> n \<Longrightarrow> push_bit n (w :: uint8_t) = 0"
  by auto

lemma mask_shifts_less:
  assumes "bmask \<noteq> 0"
  shows "mask_shifts (push_bit 1 bmask) < mask_shifts bmask"
proof -
  let ?S = "\<lambda>m::uint8_t. {k. k < 8 \<and> push_bit k m \<noteq> 0}"
  have fin: "finite (?S bmask)" by simp
  have zero: "0 \<in> ?S bmask" using assms by simp
  have sub: "Suc ` ?S (push_bit 1 bmask) \<subseteq> ?S bmask - {0}"
  proof
    fix j assume "j \<in> Suc ` ?S (push_bit 1 bmask)"
    then obtain k where k: "j = Suc k" "k < 8" "push_bit k (push_bit 1 bmask) \<noteq> 0"
      by auto
    have "push_bit k (push_bit 1 bmask) = push_bit (Suc k) bmask" by simp
    with k(3) have nz: "push_bit (Suc k) bmask \<noteq> 0" by metis
    have "Suc k < 8"
    proof (rule ccontr)
      assume "\<not> Suc k < 8"
      then have "8 \<le> Suc k" by simp
      then have "push_bit (Suc k) bmask = 0" by (rule push_bit_ge8)
      with nz show False by simp
    qed
    with nz k(1) show "j \<in> ?S bmask - {0}" by simp
  qed
  have "card (?S (push_bit 1 bmask)) = card (Suc ` ?S (push_bit 1 bmask))"
    by (simp add: card_image)
  also have "\<dots> \<le> card (?S bmask - {0})"
    using sub fin by (intro card_mono) auto
  also have "\<dots> < card (?S bmask)"
    using zero fin by (intro card_Diff1_less) auto
  finally show ?thesis by (simp only: mask_shifts_def)
qed

function owi_write_byte_loop :: "uint8_t \<Rightarrow> uint8_t \<Rightarrow> owi_state \<Rightarrow> owi_state" where
  "owi_write_byte_loop bmask data s =
     (if bmask > 0x00
      then owi_write_byte_loop (push_bit 1 bmask) data
             (if data AND bmask \<noteq> 0 then owi_write_1 s else owi_write_0 s)
      else s)"
  by pat_completeness auto
termination
proof (relation "measure (\<lambda>(bmask, data, s). mask_shifts bmask)")
  show "wf (measure (\<lambda>(bmask, data, s). mask_shifts bmask))" by simp
next
  fix bmask data :: uint8_t and s :: owi_state
  assume "0 < bmask"
  then have "bmask \<noteq> 0" by auto
  then have "mask_shifts (push_bit 1 bmask) < mask_shifts bmask" by (rule mask_shifts_less)
  then show "((push_bit 1 bmask, data,
               if data AND bmask \<noteq> 0 then owi_write_1 s else owi_write_0 s),
              bmask, data, s) \<in> measure (\<lambda>(bmask, data, s). mask_shifts bmask)"
    by simp
qed

declare owi_write_byte_loop.simps [simp del]

definition owi_write_byte :: "uint8_t \<Rightarrow> owi_state \<Rightarrow> owi_state" where
  "owi_write_byte data s = owi_write_byte_loop 0x01 data s"

subsection \<open>Reading the ROM code\<close>

text \<open>
  The inner loop of \<open>owi_read_rom\<close> collects the eight bits of \<open>temp_array[i]\<close>; the
  outer loop runs for \<open>i = 0, ..., 7\<close>. \<open>temp_array\<close> is a local array of eight
  bytes, so every index the loops use is inside it.
\<close>

function owi_read_rom_bits ::
  "uint8_t \<Rightarrow> nat \<Rightarrow> uint8_t list \<Rightarrow> owi_state \<Rightarrow> uint8_t list \<times> owi_state" where
  "owi_read_rom_bits bmask i temp_array s =
     (if bmask > 0x00
      then (case owi_read_bit s of
              (b, s1) \<Rightarrow>
                owi_read_rom_bits (push_bit 1 bmask) i
                  (if b \<noteq> 0 then temp_array[i := temp_array ! i OR bmask] else temp_array) s1)
      else (temp_array, s))"
  by pat_completeness auto
termination
proof (relation "measure (\<lambda>(bmask, i, temp_array, s). mask_shifts bmask)")
  show "wf (measure (\<lambda>(bmask, i, temp_array, s). mask_shifts bmask))" by simp
next
  fix bmask :: uint8_t and i :: nat and temp_array :: "uint8_t list"
    and s s1 :: owi_state and x :: "int \<times> owi_state" and b :: int
  assume "0 < bmask"
  then have "bmask \<noteq> 0" by auto
  then have "mask_shifts (push_bit 1 bmask) < mask_shifts bmask" by (rule mask_shifts_less)
  then show "((push_bit 1 bmask, i,
               if b \<noteq> 0 then temp_array[i := temp_array ! i OR bmask] else temp_array, s1),
              bmask, i, temp_array, s)
              \<in> measure (\<lambda>(bmask, i, temp_array, s). mask_shifts bmask)"
    by simp
qed

declare owi_read_rom_bits.simps [simp del]

function owi_read_rom_bytes ::
  "nat \<Rightarrow> uint8_t list \<Rightarrow> owi_state \<Rightarrow> uint8_t list \<times> owi_state" where
  "owi_read_rom_bytes i temp_array s =
     (if i < 8
      then (case owi_read_rom_bits 0x01 i temp_array s of
              (temp1, s1) \<Rightarrow> owi_read_rom_bytes (Suc i) temp1 s1)
      else (temp_array, s))"
  by pat_completeness auto
termination
  by (relation "measure (\<lambda>(i, temp_array, s). 8 - i)") auto

declare owi_read_rom_bytes.simps [simp del]

text \<open>\<open>for (int i = 0; i < 7; i++) crc = owi_crc(temp_array[i], crc);\<close>\<close>

function owi_read_rom_crc :: "nat \<Rightarrow> uint8_t list \<Rightarrow> uint8_t \<Rightarrow> uint8_t" where
  "owi_read_rom_crc i temp_array crc =
     (if i < 7 then owi_read_rom_crc (Suc i) temp_array (owi_crc (temp_array ! i) crc)
      else crc)"
  by pat_completeness auto
termination
  by (relation "measure (\<lambda>(i, temp_array, crc). 7 - i)") auto

declare owi_read_rom_crc.simps [simp del]

text \<open>
  \<open>for (int i = 0; i < 8; i++) rom_array[i] = temp_array[i];\<close> writes through the
  caller's pointer. The caller's array is a list; a store beyond its end is undefined
  in C and is the value \<open>None\<close> here.
\<close>

function owi_read_rom_copy :: "nat \<Rightarrow> uint8_t list \<Rightarrow> uint8_t list \<Rightarrow> uint8_t list option" where
  "owi_read_rom_copy i temp_array rom_array =
     (if i < 8
      then (if i < length rom_array
            then owi_read_rom_copy (Suc i) temp_array (rom_array[i := temp_array ! i])
            else None)
      else Some rom_array)"
  by pat_completeness auto
termination
  by (relation "measure (\<lambda>(i, temp_array, rom_array). 8 - i)") auto

declare owi_read_rom_copy.simps [simp del]

text \<open>
  The result is the returned \<open>int\<close>, the caller's array after the call and the state
  after the call. On a CRC mismatch the function returns the byte \<open>crc\<close>, converted
  to \<open>int\<close>.
\<close>

definition owi_read_rom ::
  "uint8_t list \<Rightarrow> owi_state \<Rightarrow> (int \<times> uint8_t list \<times> owi_state) option" where
  "owi_read_rom rom_array s =
     (let temp_array = [0x00, 0x00, 0x00, 0x00, 0x00, 0x00, 0x00, 0x00];
          crc = 0x00
      in case owi_detect_presence s of
           (presence, s1) \<Rightarrow>
             if presence = 0 then Some (0, rom_array, s1)
             else (case owi_read_rom_bytes 0 temp_array (owi_write_byte OWI_READ_ROM s1) of
                     (temp1, s2) \<Rightarrow>
                       (let crc1 = owi_read_rom_crc 0 temp1 crc
                        in if crc1 \<noteq> temp1 ! 7 then Some (uint crc1, rom_array, s2)
                           else (case owi_read_rom_copy 0 temp1 rom_array of
                                   None \<Rightarrow> None
                                 | Some rom1 \<Rightarrow> Some (1, rom1, s2)))))"

subsection \<open>Alarm search\<close>

definition owi_alarm_search :: "owi_state \<Rightarrow> int \<times> owi_state" where
  "owi_alarm_search s =
     (case owi_detect_presence s of
        (presence, s1) \<Rightarrow>
          if presence = 0 then (0, s1)
          else (case owi_read_bit (owi_write_byte OWI_ALARM_SEARCH s1) of
                  (first, s2) \<Rightarrow>
                    (case owi_read_bit s2 of
                       (second, s3) \<Rightarrow>
                         if (first XOR second) = 0 then (0, s3)
                         else (1, if first \<noteq> 0 then owi_write_1 s3 else owi_write_0 s3))))"

section \<open>Two-wire master engine (twi.c)\<close>

text \<open>
  The engine keeps two variables of its own, \<open>_twi_enabled\<close> and \<open>_twi_address\<close>,
  and drives the registers of the TWI peripheral. The model logs every write to the
  control register \<open>TWCR\<close> and the data register \<open>TWDR\<close>: these writes are the
  commands and the bytes handed to the bus.

  The peripheral is an input. Each operation the code starts is finished by the hardware,
  which raises the flag \<open>TWINT\<close> in \<open>TWCR\<close> and leaves a status in \<open>TWSR\<close> and a
  byte in \<open>TWDR\<close>. The field \<open>peripheral\<close> lists the completions still to come, one
  per operation; when the list is empty the hardware never raises the flag again.
\<close>

datatype twi_event = Write_TWCR uint8_t | Write_TWDR uint8_t

record response =
  status :: uint8_t
  rdata :: uint8_t

record twi_state =
  twi_enabled :: uint8_t
  twi_address :: uint8_t
  DDRC :: uint8_t
  PORTC :: uint8_t
  TWBR :: uint8_t
  TWCR :: uint8_t
  TWDR :: uint8_t
  TWSR :: uint8_t
  twi_log :: "twi_event list"
  peripheral :: "response list"

text \<open>
  A call either returns, or never returns because the busy-wait never sees the flag
  (\<open>Hang\<close>, with the state in which the code spins), or touches memory outside the
  caller's buffer (\<open>Out_Of_Bounds\<close>, undefined in C).
\<close>

datatype fault = Hang twi_state | Out_Of_Bounds

definition F_CPU :: "32 word" where "F_CPU = 16000000"
definition F_TWI :: "32 word" where "F_TWI = 100000"

definition TWI_PINMASK :: uint8_t where "TWI_PINMASK = 0x30"
definition TWI_PRESCALER_MASK :: uint8_t where "TWI_PRESCALER_MASK = 0xFC"
definition TWI_ENABLE_MASK :: uint8_t where "TWI_ENABLE_MASK = 0x45"
definition TWI_START_CONDITION :: uint8_t where "TWI_START_CONDITION = 0xA4"
definition TWI_STOP_CONDITION :: uint8_t where "TWI_STOP_CONDITION = 0x94"
definition TWI_INTERRUPT_FLAG :: uint8_t where "TWI_INTERRUPT_FLAG = 0x80"
definition TWI_START_TRANSMISSION :: uint8_t where "TWI_START_TRANSMISSION = 0x84"
definition TWI_RETURN_ACK :: uint8_t where "TWI_RETURN_ACK = 0xC4"
definition TWI_RETURN_NACK :: uint8_t where "TWI_RETURN_NACK = 0x84"

definition TWI_START :: uint8_t where "TWI_START = 0x08"
definition TWI_REP_START :: uint8_t where "TWI_REP_START = 0x10"
definition TWI_MT_SLA_ACK :: uint8_t where "TWI_MT_SLA_ACK = 0x18"
definition TWI_MT_DATA_ACK :: uint8_t where "TWI_MT_DATA_ACK = 0x28"
definition TWI_MR_SLA_ACK :: uint8_t where "TWI_MR_SLA_ACK = 0x40"
definition TWI_MR_SLA_NACK :: uint8_t where "TWI_MR_SLA_NACK = 0x48"
definition TWI_MR_DATA_ACK :: uint8_t where "TWI_MR_DATA_ACK = 0x50"
definition TWI_MR_DATA_NACK :: uint8_t where "TWI_MR_DATA_NACK = 0x58"

subsection \<open>Register access\<close>

text \<open>
  A write to \<open>TWCR\<close> with the \<open>TWINT\<close> bit set clears the flag (twi.c: ``clear TWINT
  bit in TWCR to start transmission''); a write with the bit clear leaves the flag as it
  is. The other bits are stored as written.
\<close>

definition write_TWCR :: "uint8_t \<Rightarrow> twi_state \<Rightarrow> twi_state" where
  "write_TWCR v s =
     s\<lparr>TWCR := (if v AND TWI_INTERRUPT_FLAG \<noteq> 0 then v AND NOT TWI_INTERRUPT_FLAG
                else v OR (TWCR s AND TWI_INTERRUPT_FLAG)),
       twi_log := twi_log s @ [Write_TWCR v]\<rparr>"

definition write_TWDR :: "uint8_t \<Rightarrow> twi_state \<Rightarrow> twi_state" where
  "write_TWDR v s = s\<lparr>TWDR := v, twi_log := twi_log s @ [Write_TWDR v]\<rparr>"

text \<open>The hardware finishes the running operation.\<close>

definition twi_complete :: "response \<Rightarrow> twi_state \<Rightarrow> twi_state" where
  "twi_complete r s =
     s\<lparr>TWCR := TWCR s OR TWI_INTERRUPT_FLAG, TWSR := status r, TWDR := rdata r,
       peripheral := tl (peripheral s)\<rparr>"

text \<open>
  \<open>while (!(TWCR & TWI_INTERRUPT_FLAG));\<close> The loop has no body: it leaves at once
  when the flag is set, leaves when the hardware finishes the operation, and spins for
  ever when the hardware never does.
\<close>

definition wait_TWINT :: "twi_state \<Rightarrow> fault + twi_state" where
  "wait_TWINT s =
     (if TWCR s AND TWI_INTERRUPT_FLAG \<noteq> 0 then Inr s
      else (case peripheral s of
              [] \<Rightarrow> Inl (Hang s)
            | r # rs \<Rightarrow> Inr (twi_complete r s)))"

subsection \<open>Enable and disable\<close>

text \<open>
  \<open>TWBR = ((F_CPU / F_TWI) - 16) / 2\<close> is computed in \<open>unsigned long\<close> (32 bits) and
  stored into the 8-bit register.
\<close>

definition twi_enable :: "twi_state \<Rightarrow> twi_state" where
  "twi_enable s =
     (if twi_enabled s \<noteq> 0 then s
      else (let s1 = s\<lparr>twi_enabled := 1\<rparr>;
                s2 = s1\<lparr>DDRC := DDRC s1 AND NOT TWI_PINMASK\<rparr>;
                s3 = s2\<lparr>PORTC := PORTC s2 OR TWI_PINMASK\<rparr>;
                s4 = s3\<lparr>TWBR := ucast (((F_CPU div F_TWI) - 16) div 2)\<rparr>
            in write_TWCR (TWCR s4 OR TWI_ENABLE_MASK) s4))"

definition twi_disable :: "twi_state \<Rightarrow> twi_state" where
  "twi_disable s =
     (if twi_enabled s = 0 then s
      else (let s1 = s\<lparr>twi_enabled := 0\<rparr>;
                s2 = write_TWCR (TWCR s1 AND NOT TWI_ENABLE_MASK) s1
            in s2\<lparr>PORTC := PORTC s2 AND NOT TWI_PINMASK\<rparr>))"

definition twi_is_enabled :: "twi_state \<Rightarrow> int" where
  "twi_is_enabled s = uint (twi_enabled s)"

subsection \<open>Open and close\<close>

definition twi_open :: "uint8_t \<Rightarrow> twi_state \<Rightarrow> fault + (int \<times> twi_state)" where
  "twi_open address s =
     (let s1 = s\<lparr>twi_address := address\<rparr>
      in case wait_TWINT (write_TWCR TWI_START_CONDITION s1) of
           Inl e \<Rightarrow> Inl e
         | Inr s2 \<Rightarrow>
             if TWSR s2 AND TWI_PRESCALER_MASK \<noteq> TWI_START then Inr (0, s2)
             else (let s3 = write_TWDR (push_bit 1 (twi_address s2)) s2
                   in case wait_TWINT (write_TWCR TWI_START_TRANSMISSION s3) of
                        Inl e \<Rightarrow> Inl e
                      | Inr s4 \<Rightarrow>
                          if TWSR s4 AND TWI_PRESCALER_MASK \<noteq> TWI_MT_SLA_ACK then Inr (0, s4)
                          else Inr (1, s4)))"

definition twi_close :: "twi_state \<Rightarrow> twi_state" where
  "twi_close s = write_TWCR TWI_STOP_CONDITION s"

subsection \<open>Write\<close>

definition twi_write_ch :: "uint8_t \<Rightarrow> twi_state \<Rightarrow> fault + (int \<times> twi_state)" where
  "twi_write_ch data s =
     (case wait_TWINT (write_TWCR TWI_START_TRANSMISSION (write_TWDR data s)) of
        Inl e \<Rightarrow> Inl e
      | Inr s1 \<Rightarrow>
          if TWSR s1 AND TWI_PRESCALER_MASK \<noteq> TWI_MT_DATA_ACK then Inr (0, s1)
          else Inr (1, s1))"

text \<open>
  \<open>twi_write_str\<close>: \<open>ptr\<close> is set to \<open>data\<close> before the loop and the loop body is
  \<open>if (!twi_write_ch(*ptr)) return 0;\<close>. The body does not change \<open>ptr\<close>, so the
  model passes the same index to every iteration. \<open>ptr\<close> is the index into the
  caller's array; reading beyond the array is \<open>Out_Of_Bounds\<close>. The loop test
  \<open>c < n\<close> does no arithmetic on \<open>n\<close>, and \<open>c + 1\<close> is at most \<open>n\<close>, so nothing
  overflows here; \<open>c\<close> and \<open>n\<close> are integers.
\<close>

function twi_write_str_loop ::
  "int \<Rightarrow> int \<Rightarrow> nat \<Rightarrow> uint8_t list \<Rightarrow> twi_state \<Rightarrow> fault + (int \<times> twi_state)" where
  "twi_write_str_loop c n ptr data s =
     (if c < n
      then (if ptr < length data
            then (case twi_write_ch (data ! ptr) s of
                    Inl e \<Rightarrow> Inl e
                  | Inr (r, s1) \<Rightarrow>
                      if r = 0 then Inr (0, s1)
                      else twi_write_str_loop (c + 1) n ptr data s1)
            else Inl Out_Of_Bounds)
      else Inr (1, s))"
  by pat_completeness auto
termination
  by (relation "measure (\<lambda>(c, n, ptr, data, s). nat (n - c))") auto

declare twi_write_str_loop.simps [simp del]

definition twi_write_str :: "uint8_t list \<Rightarrow> int \<Rightarrow> twi_state \<Rightarrow> fault + (int \<times> twi_state)" where
  "twi_write_str data n s = twi_write_str_loop 0 n 0 data s"

subsection \<open>Read\<close>

definition twi_register :: "uint8_t \<Rightarrow> twi_state \<Rightarrow> fault + (int \<times> twi_state)" where
  "twi_register reg s =
     (case wait_TWINT (write_TWCR TWI_START_TRANSMISSION (write_TWDR reg s)) of
        Inl e \<Rightarrow> Inl e
      | Inr s1 \<Rightarrow>
          if TWSR s1 AND TWI_PRESCALER_MASK \<noteq> TWI_MT_DATA_ACK then Inr (0, s1)
          else (case wait_TWINT (write_TWCR TWI_START_CONDITION s1) of
                  Inl e \<Rightarrow> Inl e
                | Inr s2 \<Rightarrow>
                    if TWSR s2 AND TWI_PRESCALER_MASK \<noteq> TWI_REP_START then Inr (0, s2)
                    else (let s3 = write_TWDR (push_bit 1 (twi_address s2) OR 0x01) s2
                          in case wait_TWINT (write_TWCR TWI_START_TRANSMISSION s3) of
                               Inl e \<Rightarrow> Inl e
                             | Inr s4 \<Rightarrow>
                                 if TWSR s4 AND TWI_PRESCALER_MASK \<noteq> TWI_MR_SLA_ACK
                                 then Inr (0, s4)
                                 else Inr (1, s4))))"

text \<open>
  \<open>twi_read_ch\<close> and \<open>twi_read_str\<close> begin with the statement \<open>twi_register(reg);\<close>:
  the value \<open>twi_register\<close> returns is not used. \<open>data\<close> of \<open>twi_read_ch\<close> points to
  one byte; the model takes the byte and returns it after the call.
\<close>

definition twi_read_ch ::
  "uint8_t \<Rightarrow> uint8_t \<Rightarrow> twi_state \<Rightarrow> fault + (int \<times> uint8_t \<times> twi_state)" where
  "twi_read_ch reg data s =
     (case twi_register reg s of
        Inl e \<Rightarrow> Inl e
      | Inr (r, s1) \<Rightarrow>
          (case wait_TWINT (write_TWCR TWI_RETURN_NACK s1) of
             Inl e \<Rightarrow> Inl e
           | Inr s2 \<Rightarrow>
               if TWSR s2 AND TWI_PRESCALER_MASK \<noteq> TWI_MR_DATA_NACK then Inr (0, data, s2)
               else Inr (1, TWDR s2, s2)))"

text \<open>
  \<open>twi_read_str\<close>: \<open>n\<close> and the loop counter \<open>c\<close> are C \<open>int\<close>s, 16 bits wide on
  the AVR, in two's complement. The loop test is \<open>c < n - 1\<close>, a signed comparison; for
  the least \<open>int\<close> the subtraction overflows, which C leaves undefined and which wraps
  round to the greatest \<open>int\<close> on the target. The model is the 16-bit arithmetic of the
  target: \<open>-\<close> and \<open>+\<close> wrap, \<open><s\<close> compares the signed values. The code after the
  loop, from \<open>TWCR = TWI_RETURN_NACK\<close> on, is \<open>twi_read_str_last\<close>.
\<close>

type_synonym int16 = "16 word"

definition INT_MIN :: int16 where "INT_MIN = - 32768"

lemma sint_succ16:
  assumes "c <s (m :: int16)"
  shows "sint (c + 1) = sint c + 1"
proof -
  have lt: "sint c < sint m" using assms by (simp add: word_sless_alt)
  have "sint m < 2 ^ 15" using sint_lt [of m] by simp
  moreover have "- (2 ^ 15) \<le> sint c" using sint_ge [of c] by simp
  ultimately have "- (2 ^ 15) \<le> sint c + 1" "sint c + 1 < 2 ^ 15" using lt by simp_all
  then have "signed_take_bit 15 (sint c + 1) = sint c + 1"
    by (intro signed_take_bit_int_eq_self) simp_all
  then show ?thesis by (simp add: sint_word_ariths)
qed

definition twi_read_str_last ::
  "nat \<Rightarrow> uint8_t list \<Rightarrow> twi_state \<Rightarrow> fault + (int \<times> uint8_t list \<times> twi_state)" where
  "twi_read_str_last ptr data s =
     (case wait_TWINT (write_TWCR TWI_RETURN_NACK s) of
        Inl e \<Rightarrow> Inl e
      | Inr s1 \<Rightarrow>
          if TWSR s1 AND TWI_PRESCALER_MASK \<noteq> TWI_MR_DATA_NACK then Inr (0, data, s1)
          else if ptr < length data then Inr (1, data[ptr := TWDR s1], s1)
          else Inl Out_Of_Bounds)"

function twi_read_str_loop ::
  "int16 \<Rightarrow> int16 \<Rightarrow> nat \<Rightarrow> uint8_t list \<Rightarrow> twi_state
     \<Rightarrow> fault + (int \<times> uint8_t list \<times> twi_state)" where
  "twi_read_str_loop c n ptr data s =
     (if c <s n - 1
      then (case wait_TWINT (write_TWCR TWI_RETURN_ACK s) of
              Inl e \<Rightarrow> Inl e
            | Inr s1 \<Rightarrow>
                if TWSR s1 AND TWI_PRESCALER_MASK \<noteq> TWI_MR_DATA_ACK then Inr (0, data, s1)
                else if ptr < length data
                then twi_read_str_loop (c + 1) n (Suc ptr) (data[ptr := TWDR s1]) s1
                else Inl Out_Of_Bounds)
      else twi_read_str_last ptr data s)"
  by pat_completeness auto
termination
proof (relation "measure (\<lambda>(c, n, ptr, data, s). nat (sint (n - 1) - sint c))")
  show "wf (measure (\<lambda>(c, n, ptr, data, s). nat (sint (n - 1) - sint c)))" by simp
next
  fix c n :: int16 and ptr :: nat and data :: "uint8_t list" and s s1 :: twi_state
  assume lt: "c <s n - 1"
  then have "sint (c + 1) = sint c + 1" by (rule sint_succ16)
  moreover have "sint c < sint (n - 1)" using lt by (simp add: word_sless_alt)
  ultimately show "((c + 1, n, Suc ptr, data[ptr := TWDR s1], s1), c, n, ptr, data, s)
      \<in> measure (\<lambda>(c, n, ptr, data, s). nat (sint (n - 1) - sint c))"
    by simp
qed

declare twi_read_str_loop.simps [simp del]

definition twi_read_str ::
  "uint8_t \<Rightarrow> uint8_t list \<Rightarrow> int16 \<Rightarrow> twi_state
     \<Rightarrow> fault + (int \<times> uint8_t list \<times> twi_state)" where
  "twi_read_str reg data n s =
     (case twi_register reg s of
        Inl e \<Rightarrow> Inl e
      | Inr (r, s1) \<Rightarrow> twi_read_str_loop 0 n 0 data s1)"

section \<open>Vocabulary of the properties\<close>

subsection \<open>One-wire time slots and sampled bytes\<close>

text \<open>
  The events of one reset, one write slot and one read slot, as the line primitives log
  them, and the slots of a byte written least significant bit first.
\<close>

definition reset_slot :: "owi_event list" where
  "reset_slot = [Pull_Line, Delay_us 480, Release_Line, Delay_us 60, Sample_Line, Delay_us 420]"

definition write_1_slot :: "owi_event list" where
  "write_1_slot = [Pull_Line, Delay_us 1, Release_Line, Delay_us 64]"

definition write_0_slot :: "owi_event list" where
  "write_0_slot = [Pull_Line, Delay_us 60, Release_Line, Delay_us 5]"

definition read_slot :: "owi_event list" where
  "read_slot = [Pull_Line, Delay_us 1, Release_Line, Delay_us 14, Sample_Line, Delay_us 45]"

definition byte_slots :: "uint8_t \<Rightarrow> owi_event list" where
  "byte_slots data = concat (map (\<lambda>k. if bit data k then write_1_slot else write_0_slot) [0..<8])"

definition rom_read_slots :: "owi_event list" where
  "rom_read_slots =
     reset_slot @ byte_slots OWI_READ_ROM @ concat (replicate 8 (concat (replicate 8 read_slot)))"

text \<open>
  \<open>after_slots n evs s\<close> is the state \<open>s\<close> after complete time slots: the line is
  released, \<open>n\<close> reads of \<open>PINB\<close> are used up and \<open>evs\<close> is appended to the log.
\<close>

definition after_slots :: "nat \<Rightarrow> owi_event list \<Rightarrow> owi_state \<Rightarrow> owi_state" where
  "after_slots n evs s =
     s\<lparr>DDRB := DDRB s AND OWI_IPINMASK, PORTB := PORTB s OR OWI_PINMASK,
       PINB := sdrop n (PINB s), owi_bus := owi_bus s @ evs\<rparr>"

text \<open>
  The byte that eight successive samples of the line spell, least significant bit first,
  and the eight bytes that 64 samples spell. \<open>sampled_bits j\<close> is the part of a byte
  from bit \<open>j\<close> upwards.
\<close>

definition sampled_bits :: "nat \<Rightarrow> uint8_t stream \<Rightarrow> uint8_t" where
  "sampled_bits j p =
     horner_sum of_bool 2 (map (\<lambda>k. j \<le> k \<and> p !! (k - j) AND OWI_PINMASK \<noteq> 0) [0..<8])"

definition sampled_byte :: "uint8_t stream \<Rightarrow> uint8_t" where
  "sampled_byte p = horner_sum of_bool 2 (map (\<lambda>k. p !! k AND OWI_PINMASK \<noteq> 0) [0..<8])"

definition sampled_rom :: "uint8_t stream \<Rightarrow> uint8_t list" where
  "sampled_rom p = map (\<lambda>m. sampled_byte (sdrop (8 * m) p)) [0..<8]"

text \<open>The CRC of a byte string: \<open>owi_crc\<close> chained from a seed, as \<open>owi_read_rom\<close> does.\<close>

definition owi_crc_string :: "uint8_t list \<Rightarrow> uint8_t \<Rightarrow> uint8_t" where
  "owi_crc_string bytes seed = foldl (\<lambda>crc databyte. owi_crc databyte crc) seed bytes"

text \<open>
  A response with a CRC mismatch: presence is detected and the CRC of the first seven
  bytes read differs from the eighth.
\<close>

definition crc_mismatch :: "owi_state \<Rightarrow> bool" where
  "crc_mismatch s \<longleftrightarrow>
     shd (PINB s) AND OWI_PINMASK = 0 \<and>
     owi_crc_string (take 7 (sampled_rom (stl (PINB s)))) 0 \<noteq> sampled_rom (stl (PINB s)) ! 7"

text \<open>
  A line on which one device answers the reset with a presence pulse and then sends
  \<open>bytes\<close>, least significant bit first; afterwards the line stays high. \<open>bus_state\<close>
  is an engine at rest in front of a line.
\<close>

definition line_of_bytes :: "uint8_t list \<Rightarrow> uint8_t stream" where
  "line_of_bytes bytes =
     0 ## smap (\<lambda>n. if n < 8 * length bytes \<and> \<not> bit (bytes ! (n div 8)) (n mod 8) then 0 else 1)
            (fromN 0)"

definition bus_state :: "uint8_t stream \<Rightarrow> owi_state" where
  "bus_state p = \<lparr>DDRB = 0, PORTB = 0, PINB = p, owi_bus = []\<rparr>"

subsection \<open>Two-wire example states\<close>

text \<open>
  An enabled engine with an open connection to address \<open>0x27\<close>, in front of a
  peripheral that will complete the operations listed.
\<close>

definition twi_idle :: "response list \<Rightarrow> twi_state" where
  "twi_idle rs =
     \<lparr>twi_enabled = 1, twi_address = 0x27, DDRC = 0, PORTC = 0x30, TWBR = 72, TWCR = 0x45,
      TWDR = 0, TWSR = 0xF8, twi_log = [], peripheral = rs\<rparr>"

text \<open>An engine that was never enabled: every variable and register is 0.\<close>

definition twi_reset_state :: twi_state where
  "twi_reset_state =
     \<lparr>twi_enabled = 0, twi_address = 0, DDRC = 0, PORTC = 0, TWBR = 0, TWCR = 0,
      TWDR = 0, TWSR = 0, twi_log = [], peripheral = []\<rparr>"

text \<open>
  The register byte is acknowledged and the repeated start is sent, but the address
  with the read bit is not acknowledged (\<open>0x48\<close>); the next operation ends as a read
  with not-acknowledge (\<open>0x58\<close>) and the idle bus reads \<open>0xFF\<close>.
\<close>

definition nack_address :: "response list" where
  "nack_address =
     [\<lparr>status = 0x28, rdata = 0x00\<rparr>, \<lparr>status = 0x10, rdata = 0x00\<rparr>,
      \<lparr>status = 0x48, rdata = 0x00\<rparr>, \<lparr>status = 0x58, rdata = 0xFF\<rparr>]"

text \<open>Two data bytes are acknowledged.\<close>

definition two_acks :: "response list" where
  "two_acks = [\<lparr>status = 0x28, rdata = 0x00\<rparr>, \<lparr>status = 0x28, rdata = 0x00\<rparr>]"

text \<open>
  What a read call leaves behind when it returns: the value returned, the caller's
  buffer and the log of register writes.
\<close>

definition twi_read_outcome ::
  "fault + (int \<times> uint8_t list \<times> twi_state) \<Rightarrow> (int \<times> uint8_t list \<times> twi_event list) option" where
  "twi_read_outcome x =
     (case x of Inl e \<Rightarrow> None | Inr (r, data, s) \<Rightarrow> Some (r, data, twi_log s))"

text \<open>A register-selected read of one byte \<open>0x7F\<close> that goes well.\<close>

definition read_acks :: "response list" where
  "read_acks =
     [\<lparr>status = 0x28, rdata = 0x00\<rparr>, \<lparr>status = 0x10, rdata = 0x00\<rparr>,
      \<lparr>status = 0x40, rdata = 0x00\<rparr>, \<lparr>status = 0x58, rdata = 0x7F\<rparr>]"

section \<open>Properties of the one-wire engine\<close>

subsection \<open>Time slots\<close>

lemma ipinmask_not: "OWI_IPINMASK = NOT OWI_PINMASK"
  by (simp add: OWI_PINMASK_def OWI_IPINMASK_def)

lemma pin_regs:
  "(x OR OWI_PINMASK) AND OWI_IPINMASK = x AND OWI_IPINMASK"
  "(x AND OWI_IPINMASK) OR OWI_PINMASK = x OR OWI_PINMASK"
  "(x AND OWI_IPINMASK) AND OWI_IPINMASK = x AND OWI_IPINMASK"
  "(x OR OWI_PINMASK) OR OWI_PINMASK = x OR OWI_PINMASK"
  unfolding ipinmask_not
  by (rule bit_eqI; auto simp: bit_and_iff bit_or_iff bit_not_iff)+

lemma after_slots_after_slots:
  "after_slots m e2 (after_slots n e1 s) = after_slots (n + m) (e1 @ e2) s"
  by (simp add: after_slots_def pin_regs)

lemma owi_write_1_slots: "owi_write_1 s = after_slots 0 write_1_slot s"
  by (simp add: owi_write_1_def after_slots_def pull_line_def release_line_def delay_us_def
      write_1_slot_def pin_regs)

lemma owi_write_0_slots: "owi_write_0 s = after_slots 0 write_0_slot s"
  by (simp add: owi_write_0_def after_slots_def pull_line_def release_line_def delay_us_def
      write_0_slot_def pin_regs)

lemma owi_read_bit_slots:
  "owi_read_bit s = (if shd (PINB s) AND OWI_PINMASK \<noteq> 0 then 1 else 0, after_slots 1 read_slot s)"
  by (simp add: owi_read_bit_def read_PINB_def after_slots_def pull_line_def release_line_def
      delay_us_def read_slot_def pin_regs)

lemma owi_detect_presence_slots:
  "owi_detect_presence s =
     (if shd (PINB s) AND OWI_PINMASK \<noteq> 0 then 0 else 1, after_slots 1 reset_slot s)"
  by (simp add: owi_detect_presence_def read_PINB_def after_slots_def pull_line_def
      release_line_def delay_us_def reset_slot_def pin_regs)

lemma exp_pos8: "(0 :: uint8_t) < 2 ^ j \<longleftrightarrow> j < 8"
  by (simp add: word_greater_zero_iff exp_eq_zero_iff not_le)

lemma and_exp8: "(data :: uint8_t) AND 2 ^ j \<noteq> 0 \<longleftrightarrow> bit data j"
  by (simp add: and_exp_eq_0_iff_not_bit)

lemma owi_write_byte_loop_end: "8 \<le> j \<Longrightarrow> owi_write_byte_loop (2 ^ j) data s = s"
  by (subst owi_write_byte_loop.simps) (simp add: exp_pos8)

lemma owi_write_byte_loop_step: "j < 8 \<Longrightarrow> owi_write_byte_loop (2 ^ j) data s = 
   owi_write_byte_loop (2 ^ Suc j) data (if bit data j then owi_write_1 s else owi_write_0 s)"
  by (subst owi_write_byte_loop.simps) (simp add: exp_pos8 and_exp8 mult.commute)

lemma owi_write_byte_loop_slots:
  "j \<le> 8 \<Longrightarrow> owi_write_byte_loop (2 ^ j) data (after_slots n evs s) =
     after_slots n (evs @ concat (map (\<lambda>k. if bit data k then write_1_slot else write_0_slot) [j..<8])) s"
proof (induction "8 - j" arbitrary: j evs)
  case 0
  then have "8 \<le> j" "[j..<8] = []" by simp_all
  then show ?case by (simp only: owi_write_byte_loop_end list.map concat.simps append_Nil2)
next
  case (Suc d)
  then have j: "j < 8" "d = 8 - Suc j" "Suc j \<le> 8" by simp_all
  have up: "[j..<8] = j # [Suc j..<8]" using j(1) by (simp add: upt_conv_Cons)
  note IH = Suc.hyps(1) [OF j(2) j(3)]
  show ?case
  proof (cases "bit data j")
    case True
    then show ?thesis
      by (simp only: owi_write_byte_loop_step [OF j(1)] if_True owi_write_1_slots
          after_slots_after_slots IH up list.map concat.simps append_assoc add_0_right)
  next
    case False
    then show ?thesis
      by (simp only: owi_write_byte_loop_step [OF j(1)] if_False owi_write_0_slots
          after_slots_after_slots IH up list.map concat.simps append_assoc add_0_right)
  qed
qed

lemma owi_write_byte_slots:
  "owi_write_byte data (after_slots n evs s) = after_slots n (evs @ byte_slots data) s"
  using owi_write_byte_loop_slots [of 0 data n evs s]
  by (simp add: owi_write_byte_def byte_slots_def)

lemma bit_sampled_bits:
  "bit (sampled_bits j p) k \<longleftrightarrow> j \<le> k \<and> k < 8 \<and> p !! (k - j) AND OWI_PINMASK \<noteq> 0"
  by (auto simp: sampled_bits_def bit_horner_sum_bit_word_iff)

lemma sampled_bits_0: "sampled_bits 0 p = sampled_byte p"
  by (simp add: sampled_bits_def sampled_byte_def)

lemma sampled_bits_end: "8 \<le> j \<Longrightarrow> sampled_bits j p = 0"
  by (rule bit_eqI) (simp add: bit_sampled_bits)

lemma sampled_bits_step:
  assumes "j < 8"
  shows "sampled_bits j p =
    (if shd p AND OWI_PINMASK \<noteq> 0 then 2 ^ j else 0) OR sampled_bits (Suc j) (stl p)"
proof (rule bit_eqI)
  fix k
  show "bit (sampled_bits j p) k \<longleftrightarrow>
    bit ((if shd p AND OWI_PINMASK \<noteq> 0 then 2 ^ j else 0) OR sampled_bits (Suc j) (stl p)) k"
  proof (cases "k = j")
    case True
    with assms show ?thesis by (simp add: bit_sampled_bits bit_or_iff bit_exp_iff)
  next
    case False
    then have "j \<le> k \<longleftrightarrow> Suc j \<le> k" by auto
    moreover have "p !! (k - j) = stl p !! (k - Suc j)" if "Suc j \<le> k"
    proof -
      from that have "k - j = Suc (k - Suc j)" by simp
      then show ?thesis by (simp only: snth.simps)
    qed
    ultimately show ?thesis using False
      by (auto simp: bit_sampled_bits bit_or_iff bit_exp_iff)
  qed
qed

lemma owi_read_rom_bits_end:
  "8 \<le> j \<Longrightarrow> owi_read_rom_bits (2 ^ j) i temp s = (temp, s)"
  by (subst owi_read_rom_bits.simps) (simp add: exp_pos8)

lemma owi_read_rom_bits_step:
  "j < 8 \<Longrightarrow> owi_read_rom_bits (2 ^ j) i temp (after_slots n evs s) =
     owi_read_rom_bits (2 ^ Suc j) i
       (temp[i := temp ! i OR (if PINB s !! n AND OWI_PINMASK \<noteq> 0 then 2 ^ j else 0)])
       (after_slots (Suc n) (evs @ read_slot) s)"
  by (subst owi_read_rom_bits.simps)
     (simp add: exp_pos8 mult.commute owi_read_bit_slots after_slots_after_slots after_slots_def)

lemma owi_read_rom_bits_slots:
  "j \<le> 8 \<Longrightarrow> i < length temp \<Longrightarrow>
   owi_read_rom_bits (2 ^ j) i temp (after_slots n evs s) =
     (temp[i := temp ! i OR sampled_bits j (sdrop n (PINB s))],
      after_slots (n + (8 - j)) (evs @ concat (replicate (8 - j) read_slot)) s)"
proof (induction "8 - j" arbitrary: j temp n evs)
  case 0
  then have "8 \<le> j" "8 - j = 0" by simp_all
  then show ?case
    by (simp add: owi_read_rom_bits_end sampled_bits_end)
next
  case (Suc d)
  then have j: "j < 8" "d = 8 - Suc j" "Suc j \<le> 8" by simp_all
  let ?b = "if PINB s !! n AND OWI_PINMASK \<noteq> 0 then 2 ^ j else (0 :: uint8_t)"
  let ?temp1 = "temp[i := temp ! i OR ?b]"
  have len: "i < length ?temp1" using Suc.prems by simp
  have rep: "8 - j = Suc (8 - Suc j)" using j by simp
  have "owi_read_rom_bits (2 ^ j) i temp (after_slots n evs s) =
        owi_read_rom_bits (2 ^ Suc j) i ?temp1 (after_slots (Suc n) (evs @ read_slot) s)"
    by (rule owi_read_rom_bits_step [OF j(1)])
  also have "\<dots> = (?temp1[i := ?temp1 ! i OR sampled_bits (Suc j) (sdrop (Suc n) (PINB s))],
      after_slots (Suc n + (8 - Suc j))
        ((evs @ read_slot) @ concat (replicate (8 - Suc j) read_slot)) s)"
    by (rule Suc.hyps(1) [OF j(2) j(3) len])
  also have "?temp1[i := ?temp1 ! i OR sampled_bits (Suc j) (sdrop (Suc n) (PINB s))] =
      temp[i := temp ! i OR sampled_bits j (sdrop n (PINB s))]"
    using Suc.prems(2) sampled_bits_step [OF j(1), of "sdrop n (PINB s)"]
    by (simp add: word_bw_assocs)
  finally show ?case using j by (simp add: rep)
qed

lemma owi_read_rom_bytes_slots:
  "i \<le> 8 \<Longrightarrow> length temp = 8 \<Longrightarrow>
   owi_read_rom_bytes i temp (after_slots n evs s) =
     (map (\<lambda>m. if m < i then temp ! m
                else temp ! m OR sampled_byte (sdrop (n + 8 * (m - i)) (PINB s))) [0..<8],
      after_slots (n + 8 * (8 - i))
        (evs @ concat (replicate (8 - i) (concat (replicate 8 read_slot)))) s)"
proof (induction "8 - i" arbitrary: i temp n evs)
  case 0
  then have i: "i = 8" by simp
  have "map (\<lambda>m. if m < 8 then temp ! m else undefined m) [0..<8] = map (\<lambda>m. temp ! m) [0..<8]"
    by (rule map_cong) auto
  have "map (\<lambda>m. temp ! m) [0..<length temp] = temp" by (rule map_nth)
  then have "map (\<lambda>m. temp ! m) [0..<8] = temp" using "0.prems" by simp
  moreover have "map (\<lambda>m. if m < 8 then temp ! m
                else temp ! m OR sampled_byte (sdrop (n + 8 * (m - 8)) (PINB s))) [0..<8]
      = map (\<lambda>m. temp ! m) [0..<8]"
    by (rule map_cong) auto
  ultimately show ?case unfolding i
    by (subst owi_read_rom_bytes.simps) simp
next
  case (Suc d)
  then have i: "i < 8" "d = 8 - Suc i" "Suc i \<le> 8" by simp_all
  let ?P = "PINB s"
  let ?temp1 = "temp[i := temp ! i OR sampled_byte (sdrop n ?P)]"
  have len: "length ?temp1 = 8" "i < length temp" using Suc.prems i by simp_all
  have rep: "8 - i = Suc (8 - Suc i)" using i by simp
  have inner: "owi_read_rom_bits 1 i temp (after_slots n evs s) =
      (?temp1, after_slots (n + 8) (evs @ concat (replicate 8 read_slot)) s)"
    using owi_read_rom_bits_slots [of 0 i temp n evs s] len(2)
    by (simp add: sampled_bits_0)
  have "owi_read_rom_bytes i temp (after_slots n evs s) =
      owi_read_rom_bytes (Suc i) ?temp1
        (after_slots (n + 8) (evs @ concat (replicate 8 read_slot)) s)"
    using i(1) by (subst owi_read_rom_bytes.simps) (simp add: inner)
  also have "\<dots> =
     (map (\<lambda>m. if m < Suc i then ?temp1 ! m
                else ?temp1 ! m OR sampled_byte (sdrop (n + 8 + 8 * (m - Suc i)) ?P)) [0..<8],
      after_slots (n + 8 + 8 * (8 - Suc i))
        ((evs @ concat (replicate 8 read_slot)) @
           concat (replicate (8 - Suc i) (concat (replicate 8 read_slot)))) s)"
    by (rule Suc.hyps(1) [OF i(2) i(3) len(1)])
  also have "map (\<lambda>m. if m < Suc i then ?temp1 ! m
                else ?temp1 ! m OR sampled_byte (sdrop (n + 8 + 8 * (m - Suc i)) ?P)) [0..<8]
      = map (\<lambda>m. if m < i then temp ! m
                else temp ! m OR sampled_byte (sdrop (n + 8 * (m - i)) ?P)) [0..<8]"
  proof (rule map_cong [OF refl])
    fix m assume "m \<in> set [0..<8]"
    then have m: "m < 8" by simp
    consider "m < i" | "m = i" | "i < m" by linarith
    then show "(if m < Suc i then ?temp1 ! m
                else ?temp1 ! m OR sampled_byte (sdrop (n + 8 + 8 * (m - Suc i)) ?P))
      = (if m < i then temp ! m else temp ! m OR sampled_byte (sdrop (n + 8 * (m - i)) ?P))"
    proof cases
      case 1 then show ?thesis by simp
    next
      case 2 then show ?thesis using len(2) by simp
    next
      case 3
      then have eq: "n + 8 + 8 * (m - Suc i) = n + 8 * (m - i)" by simp
      from 3 show ?thesis by (simp only: eq) simp
    qed
  qed
  finally show ?case using i by (simp add: rep add.assoc)
qed

lemma owi_read_rom_bytes_sampled:
  "owi_read_rom_bytes 0 [0, 0, 0, 0, 0, 0, 0, 0] (after_slots n evs s) =
     (sampled_rom (sdrop n (PINB s)),
      after_slots (n + 64) (evs @ concat (replicate 8 (concat (replicate 8 read_slot)))) s)"
proof -
  have "map (\<lambda>m. if m < 0 then [0, 0, 0, 0, 0, 0, 0, 0 :: uint8_t] ! m
                else [0, 0, 0, 0, 0, 0, 0, 0] ! m OR sampled_byte (sdrop (n + 8 * (m - 0)) (PINB s))) [0..<8]
      = map (\<lambda>m. sampled_byte (sdrop (8 * m) (sdrop n (PINB s)))) [0..<8]"
  proof (rule map_cong [OF refl])
    fix m assume "m \<in> set [0..<8]"
    then have "m < 8" by simp
    then have "[0, 0, 0, 0, 0, 0, 0, 0 :: uint8_t] ! m = 0"
      by (auto simp: less_Suc_eq eval_nat_numeral)
    then show "(if m < 0 then [0, 0, 0, 0, 0, 0, 0, 0 :: uint8_t] ! m
                else [0, 0, 0, 0, 0, 0, 0, 0] ! m OR sampled_byte (sdrop (n + 8 * (m - 0)) (PINB s)))
       = sampled_byte (sdrop (8 * m) (sdrop n (PINB s)))"
      by simp
  qed
  then show ?thesis
    using owi_read_rom_bytes_slots [of 0 "[0, 0, 0, 0, 0, 0, 0, 0]" n evs s]
    by (simp add: sampled_rom_def)
qed

lemma length_sampled_rom: "length (sampled_rom p) = 8"
  by (simp add: sampled_rom_def)

lemma owi_read_rom_crc_foldl:
  "i \<le> 7 \<Longrightarrow> owi_read_rom_crc i temp crc =
     foldl (\<lambda>crc databyte. owi_crc databyte crc) crc (map (\<lambda>m. temp ! m) [i..<7])"
proof (induction "7 - i" arbitrary: i crc)
  case 0
  then show ?case by (subst owi_read_rom_crc.simps) simp
next
  case (Suc d)
  then have i: "i < 7" "d = 7 - Suc i" "Suc i \<le> 7" by simp_all
  have up: "[i..<7] = i # [Suc i..<7]" using i(1) by (simp add: upt_conv_Cons)
  show ?case
    using i(1) Suc.hyps(1) [OF i(2) i(3)]
    by (subst owi_read_rom_crc.simps) (simp add: up)
qed

lemma owi_read_rom_crc_string:
  assumes "length temp = 8"
  shows "owi_read_rom_crc 0 temp 0 = owi_crc_string (take 7 temp) 0"
proof -
  have "map (\<lambda>m. temp ! m) [0..<7] = take 7 temp"
    using assms by (intro nth_equalityI) auto
  then show ?thesis
    using owi_read_rom_crc_foldl [of 0 temp 0] by (simp add: owi_crc_string_def)
qed

lemma owi_read_rom_copy_map:
  "i \<le> 8 \<Longrightarrow> length rom = 8 \<Longrightarrow>
   owi_read_rom_copy i temp rom = Some (map (\<lambda>m. if i \<le> m then temp ! m else rom ! m) [0..<8])"
proof (induction "8 - i" arbitrary: i rom)
  case 0
  then have i: "i = 8" by simp
  have "map (\<lambda>m. rom ! m) [0..<length rom] = rom" by (rule map_nth)
  then have "map (\<lambda>m. rom ! m) [0..<8] = rom" using "0.prems" by simp
  moreover have "map (\<lambda>m. if 8 \<le> m then temp ! m else rom ! m) [0..<8] = map (\<lambda>m. rom ! m) [0..<8]"
    by (rule map_cong) auto
  ultimately show ?case unfolding i
    by (subst owi_read_rom_copy.simps) simp
next
  case (Suc d)
  then have i: "i < 8" "d = 8 - Suc i" "Suc i \<le> 8" by simp_all
  let ?rom1 = "rom[i := temp ! i]"
  have len: "length ?rom1 = 8" "i < length rom" using Suc.prems i by simp_all
  have "owi_read_rom_copy i temp rom = owi_read_rom_copy (Suc i) temp ?rom1"
    using i(1) len(2) by (subst owi_read_rom_copy.simps) simp
  also have "\<dots> = Some (map (\<lambda>m. if Suc i \<le> m then temp ! m else ?rom1 ! m) [0..<8])"
    by (rule Suc.hyps(1) [OF i(2) i(3) len(1)])
  also have "map (\<lambda>m. if Suc i \<le> m then temp ! m else ?rom1 ! m) [0..<8]
      = map (\<lambda>m. if i \<le> m then temp ! m else rom ! m) [0..<8]"
  proof (rule map_cong [OF refl])
    fix m assume "m \<in> set [0..<8]"
    consider "m < i" | "m = i" | "i < m" by linarith
    then show "(if Suc i \<le> m then temp ! m else ?rom1 ! m) = (if i \<le> m then temp ! m else rom ! m)"
      using len(2) by cases simp_all
  qed
  finally show ?case .
qed

lemma owi_read_rom_copy_all:
  assumes "length rom = 8" "length temp = 8"
  shows "owi_read_rom_copy 0 temp rom = Some temp"
proof -
  have "map (\<lambda>m. temp ! m) [0..<length temp] = temp" by (rule map_nth)
  then show ?thesis
    using owi_read_rom_copy_map [of 0 rom temp] assms by simp
qed

lemma owi_read_rom_cases:
  assumes "length rom_array = 8"
  shows "owi_read_rom rom_array s =
     (if shd (PINB s) AND OWI_PINMASK \<noteq> 0 then Some (0, rom_array, after_slots 1 reset_slot s)
      else if owi_crc_string (take 7 (sampled_rom (stl (PINB s)))) 0 \<noteq> sampled_rom (stl (PINB s)) ! 7
      then Some (uint (owi_crc_string (take 7 (sampled_rom (stl (PINB s)))) 0), rom_array,
                 after_slots 65 rom_read_slots s)
      else Some (1, sampled_rom (stl (PINB s)), after_slots 65 rom_read_slots s))"
proof -
  let ?bytes = "sampled_rom (stl (PINB s))"
  have rd: "owi_read_rom_bytes 0 [0, 0, 0, 0, 0, 0, 0, 0]
          (owi_write_byte OWI_READ_ROM (after_slots (Suc 0) reset_slot s)) =
        (?bytes, after_slots 65 rom_read_slots s)"
    by (simp add: owi_write_byte_slots owi_read_rom_bytes_sampled rom_read_slots_def)
  have crc: "owi_read_rom_crc 0 ?bytes 0 = owi_crc_string (take 7 ?bytes) 0"
    by (rule owi_read_rom_crc_string) (rule length_sampled_rom)
  have cp: "owi_read_rom_copy 0 ?bytes rom_array = Some ?bytes"
    using assms by (rule owi_read_rom_copy_all) (rule length_sampled_rom)
  show ?thesis
    by (simp add: owi_read_rom_def owi_detect_presence_slots rd crc cp Let_def)
qed

lemma owi_alarm_search_cases:
  "owi_alarm_search s =
    (if PINB s !! 0 AND OWI_PINMASK \<noteq> 0 then (0, after_slots 1 reset_slot s)
     else if (PINB s !! 1 AND OWI_PINMASK \<noteq> 0) = (PINB s !! 2 AND OWI_PINMASK \<noteq> 0)
     then (0, after_slots 3 (reset_slot @ byte_slots OWI_ALARM_SEARCH @ read_slot @ read_slot) s)
     else (1, after_slots 3 (reset_slot @ byte_slots OWI_ALARM_SEARCH @ read_slot @ read_slot @
                 (if PINB s !! 1 AND OWI_PINMASK \<noteq> 0 then write_1_slot else write_0_slot)) s))"
proof -
  have w: "owi_write_byte OWI_ALARM_SEARCH (after_slots (Suc 0) reset_slot s) =
     after_slots (Suc 0) (reset_slot @ byte_slots OWI_ALARM_SEARCH) s"
    by (rule owi_write_byte_slots)
  have p1: "PINB (after_slots n evs s) = sdrop n (PINB s)" for n evs
    by (simp add: after_slots_def)
  show ?thesis
    by (simp add: owi_alarm_search_def owi_detect_presence_slots w owi_read_bit_slots
        after_slots_after_slots owi_write_1_slots owi_write_0_slots p1 eval_nat_numeral)
qed

lemma bit_sampled_byte: "bit (sampled_byte p) k \<longleftrightarrow> k < 8 \<and> p !! k AND OWI_PINMASK \<noteq> 0"
  by (auto simp: sampled_byte_def bit_horner_sum_bit_word_iff)

lemma shd_line_of_bytes: "shd (line_of_bytes bytes) = 0"
  by (simp add: line_of_bytes_def)

lemma sampled_rom_line_of_bytes:
  assumes "length bytes = 8"
  shows "sampled_rom (stl (line_of_bytes bytes)) = bytes"
proof (rule nth_equalityI)
  show "length (sampled_rom (stl (line_of_bytes bytes))) = length bytes"
    using assms by (simp add: length_sampled_rom)
next
  fix m assume "m < length (sampled_rom (stl (line_of_bytes bytes)))"
  then have m: "m < 8" by (simp add: length_sampled_rom)
  have "sampled_byte (sdrop (8 * m) (stl (line_of_bytes bytes))) = bytes ! m"
  proof (rule bit_eqI)
    fix k
    show "bit (sampled_byte (sdrop (8 * m) (stl (line_of_bytes bytes)))) k \<longleftrightarrow> bit (bytes ! m) k"
    proof (cases "k < 8")
      case True
      then have dm: "(8 * m + k) div 8 = m" "(8 * m + k) mod 8 = k" by simp_all
      have "8 * m + k < 8 * length bytes" using True m assms by simp
      then have "stl (line_of_bytes bytes) !! (8 * m + k) = (if bit (bytes ! m) k then 1 else 0)"
        using True by (simp add: line_of_bytes_def)
      with True show ?thesis
        by (simp add: bit_sampled_byte sdrop_snth OWI_PINMASK_def)
    next
      case False
      then have "\<not> bit (bytes ! m) k" by (auto dest: bit_imp_le_length)
      with False show ?thesis by (simp add: bit_sampled_byte)
    qed
  qed
  with m show "sampled_rom (stl (line_of_bytes bytes)) ! m = bytes ! m"
    by (simp add: sampled_rom_def)
qed

lemma crc_rom_b: "owi_crc 0x00 (owi_crc 0x00 (owi_crc 0x0d (owi_crc 0x5b
     (owi_crc 0x56 (owi_crc 0x1c (owi_crc 0x28 0x00)))))) = 0x6d"
  by code_simp

lemma crc_one: "owi_crc 0x19 (owi_crc 0x00 (owi_crc 0x00 (owi_crc 0x00
     (owi_crc 0x00 (owi_crc 0x00 (owi_crc 0x00 0x00)))))) = 0x01"
  by code_simp

lemma crc_zero: "owi_crc 0x00 (owi_crc 0x00 (owi_crc 0x00 (owi_crc 0x00
     (owi_crc 0x00 (owi_crc 0x00 (owi_crc 0x00 0x00)))))) = 0x00"
  by code_simp

subsection \<open>The claims\<close>

text \<open>
  C6. Chaining \<open>owi_crc\<close> from seed 0 over the family code \<open>0x28\<close> and the serial
  bytes \<open>0x6e, 0x38, 0xdd, 0x06, 0x00, 0x00\<close>, each result being the seed of the next
  step, gives \<open>0x39\<close>.
\<close>

theorem owi_crc_known_vector:
  "owi_crc 0x00 (owi_crc 0x00 (owi_crc 0x06 (owi_crc 0xdd
     (owi_crc 0x38 (owi_crc 0x6e (owi_crc 0x28 0x00)))))) = 0x39"
  by code_simp

text \<open>
  C3. \<open>owi_alarm_search\<close> samples the line three times: sample 0 in the reset slot
  (low means presence), samples 1 and 2 are the two response bits. The claim holds for
  the responses (1,1), (0,1) and (1,0), not for (0,0): the code compares the two bits
  with XOR. Amended: without presence the result is 0 and only the reset slot is on the
  bus; with presence the command byte and two read slots follow; when the two bits are
  equal, (1,1) or (0,0), the result is 0 and nothing more is written; when they differ
  the result is 1 and one more slot writes the first bit back.
\<close>

theorem owi_alarm_search_response:
  "fst (owi_alarm_search s) =
     (if PINB s !! 0 AND OWI_PINMASK = 0 \<and>
         (PINB s !! 1 AND OWI_PINMASK \<noteq> 0) \<noteq> (PINB s !! 2 AND OWI_PINMASK \<noteq> 0)
      then 1 else 0) \<and>
   owi_bus (snd (owi_alarm_search s)) =
     owi_bus s @ reset_slot @
     (if PINB s !! 0 AND OWI_PINMASK \<noteq> 0 then []
      else byte_slots OWI_ALARM_SEARCH @ read_slot @ read_slot @
        (if (PINB s !! 1 AND OWI_PINMASK \<noteq> 0) = (PINB s !! 2 AND OWI_PINMASK \<noteq> 0) then []
         else if PINB s !! 1 AND OWI_PINMASK \<noteq> 0 then write_1_slot else write_0_slot))"
  by (simp add: owi_alarm_search_cases after_slots_def)

text \<open>
  The response (0,0) after a presence pulse: the line is low at every sample. The call
  returns 0 and writes nothing after the two read slots.
\<close>

theorem owi_alarm_search_both_low:
  "fst (owi_detect_presence (bus_state (sconst 0))) = 1 \<and>
   PINB (bus_state (sconst 0)) !! 1 AND OWI_PINMASK = 0 \<and>
   PINB (bus_state (sconst 0)) !! 2 AND OWI_PINMASK = 0 \<and>
   fst (owi_alarm_search (bus_state (sconst 0))) = 0 \<and>
   owi_bus (snd (owi_alarm_search (bus_state (sconst 0)))) =
     reset_slot @ byte_slots OWI_ALARM_SEARCH @ read_slot @ read_slot"
  by (simp add: owi_alarm_search_cases owi_detect_presence_slots after_slots_def bus_state_def)

text \<open>
  C4. The caller's array has eight bytes. \<open>owi_read_rom\<close> returns; the array after the
  call is the array before the call when no presence is detected or when the CRC of the
  first seven bytes read differs from the eighth; otherwise it is the eight bytes spelled
  by the 64 samples that follow the presence sample, in order.
\<close>

theorem owi_read_rom_destination:
  "length rom_array = 8 \<Longrightarrow>
   \<exists>r s'. owi_read_rom rom_array s =
     Some (r,
       (if shd (PINB s) AND OWI_PINMASK = 0 \<and>
           owi_crc_string (take 7 (sampled_rom (stl (PINB s)))) 0 = sampled_rom (stl (PINB s)) ! 7
        then sampled_rom (stl (PINB s)) else rom_array),
       s')"
  by (simp add: owi_read_rom_cases)

theorem owi_read_rom_destination_witness:
  "length [1, 2, 3, 4, 5, 6, 7, 8 :: uint8_t] = 8 \<and>
   (\<exists>r s'. owi_read_rom [1, 2, 3, 4, 5, 6, 7, 8]
              (bus_state (line_of_bytes [0x28, 0x1c, 0x56, 0x5b, 0x0d, 0x00, 0x00, 0x6d])) =
            Some (r, [0x28, 0x1c, 0x56, 0x5b, 0x0d, 0x00, 0x00, 0x6d], s'))"
  using owi_read_rom_destination [of "[1, 2, 3, 4, 5, 6, 7, 8]"
      "bus_state (line_of_bytes [0x28, 0x1c, 0x56, 0x5b, 0x0d, 0x00, 0x00, 0x6d])"]
  by (simp add: bus_state_def shd_line_of_bytes sampled_rom_line_of_bytes owi_crc_string_def
      crc_rom_b)

lemma owi_read_rom_returns_one:
  "length rom_array = 8 \<Longrightarrow>
   owi_read_rom rom_array (bus_state (line_of_bytes [0, 0, 0, 0, 0, 0, 0x19, 0])) =
     Some (1, rom_array,
       after_slots 65 rom_read_slots (bus_state (line_of_bytes [0, 0, 0, 0, 0, 0, 0x19, 0])))"
  by (simp add: owi_read_rom_cases bus_state_def shd_line_of_bytes sampled_rom_line_of_bytes
      owi_crc_string_def crc_one)

lemma owi_read_rom_returns_zero:
  "length rom_array = 8 \<Longrightarrow>
   owi_read_rom rom_array (bus_state (line_of_bytes [0, 0, 0, 0, 0, 0, 0, 1])) =
     Some (0, rom_array,
       after_slots 65 rom_read_slots (bus_state (line_of_bytes [0, 0, 0, 0, 0, 0, 0, 1])))"
  by (simp add: owi_read_rom_cases bus_state_def shd_line_of_bytes sampled_rom_line_of_bytes
      owi_crc_string_def crc_zero)

lemma crc_mismatch_one: "crc_mismatch (bus_state (line_of_bytes [0, 0, 0, 0, 0, 0, 0x19, 0]))"
  by (simp add: crc_mismatch_def bus_state_def shd_line_of_bytes sampled_rom_line_of_bytes
      owi_crc_string_def crc_one)

lemma crc_mismatch_zero: "crc_mismatch (bus_state (line_of_bytes [0, 0, 0, 0, 0, 0, 0, 1]))"
  by (simp add: crc_mismatch_def bus_state_def shd_line_of_bytes sampled_rom_line_of_bytes
      owi_crc_string_def crc_zero)

text \<open>
  C5. With presence and a CRC mismatch the value returned is the computed CRC. The
  claim adds that this CRC is never 0 on a mismatch; that part fails: seven zero bytes
  have CRC 0, so a response of seven zero bytes and an eighth byte 1 is a mismatch that
  returns 0. Amended: the value returned is the computed CRC; some mismatching
  responses return 1, the value of success, and some return 0, the value of no presence.
\<close>

theorem owi_read_rom_mismatch_value:
  "(\<forall>rom_array s. length rom_array = 8 \<and> crc_mismatch s \<longrightarrow>
      map_option fst (owi_read_rom rom_array s) =
        Some (uint (owi_crc_string (take 7 (sampled_rom (stl (PINB s)))) 0))) \<and>
   (\<exists>s. crc_mismatch s \<and> map_option fst (owi_read_rom [0, 0, 0, 0, 0, 0, 0, 0] s) = Some 1) \<and>
   (\<exists>s. crc_mismatch s \<and> map_option fst (owi_read_rom [0, 0, 0, 0, 0, 0, 0, 0] s) = Some 0)"
proof (intro conjI allI impI)
  fix rom_array :: "uint8_t list" and s
  assume "length rom_array = 8 \<and> crc_mismatch s"
  then show "map_option fst (owi_read_rom rom_array s) =
      Some (uint (owi_crc_string (take 7 (sampled_rom (stl (PINB s)))) 0))"
    by (simp add: owi_read_rom_cases crc_mismatch_def)
next
  show "\<exists>s. crc_mismatch s \<and> map_option fst (owi_read_rom [0, 0, 0, 0, 0, 0, 0, 0] s) = Some 1"
    by (rule exI [of _ "bus_state (line_of_bytes [0, 0, 0, 0, 0, 0, 0x19, 0])"])
       (simp add: crc_mismatch_one owi_read_rom_returns_one)
next
  show "\<exists>s. crc_mismatch s \<and> map_option fst (owi_read_rom [0, 0, 0, 0, 0, 0, 0, 0] s) = Some 0"
    by (rule exI [of _ "bus_state (line_of_bytes [0, 0, 0, 0, 0, 0, 0, 1])"])
       (simp add: crc_mismatch_zero owi_read_rom_returns_zero)
qed

theorem owi_read_rom_mismatch_value_witness:
  "length [9, 9, 9, 9, 9, 9, 9, 9 :: uint8_t] = 8 \<and>
   crc_mismatch (bus_state (line_of_bytes [0x28, 0x1c, 0x56, 0x5b, 0x0d, 0x00, 0x00, 0x6c])) \<and>
   map_option fst (owi_read_rom [9, 9, 9, 9, 9, 9, 9, 9]
      (bus_state (line_of_bytes [0x28, 0x1c, 0x56, 0x5b, 0x0d, 0x00, 0x00, 0x6c]))) = Some 0x6d"
proof -
  have m: "crc_mismatch (bus_state (line_of_bytes [0x28, 0x1c, 0x56, 0x5b, 0x0d, 0x00, 0x00, 0x6c]))"
    by (simp add: crc_mismatch_def bus_state_def shd_line_of_bytes sampled_rom_line_of_bytes
        owi_crc_string_def crc_rom_b)
  have "map_option fst (owi_read_rom [9, 9, 9, 9, 9, 9, 9, 9]
      (bus_state (line_of_bytes [0x28, 0x1c, 0x56, 0x5b, 0x0d, 0x00, 0x00, 0x6c]))) =
     Some (uint (owi_crc_string (take 7 (sampled_rom (stl (PINB
       (bus_state (line_of_bytes [0x28, 0x1c, 0x56, 0x5b, 0x0d, 0x00, 0x00, 0x6c])))))) 0))"
    using owi_read_rom_mismatch_value m by simp
  then show ?thesis
    using m
    by (simp add: bus_state_def sampled_rom_line_of_bytes owi_crc_string_def crc_rom_b)
qed

text \<open>
  The response of seven zero bytes and an eighth byte 1: presence, a CRC mismatch, a
  computed CRC of 0, and the call returns 0.
\<close>

theorem owi_read_rom_mismatch_returns_zero:
  "crc_mismatch (bus_state (line_of_bytes [0, 0, 0, 0, 0, 0, 0, 1])) \<and>
   owi_crc_string (take 7 (sampled_rom (stl (line_of_bytes [0, 0, 0, 0, 0, 0, 0, 1])))) 0 = 0 \<and>
   map_option fst
     (owi_read_rom [0, 0, 0, 0, 0, 0, 0, 0] (bus_state (line_of_bytes [0, 0, 0, 0, 0, 0, 0, 1])))
   = Some 0"
  by (simp add: crc_mismatch_zero owi_read_rom_returns_zero sampled_rom_line_of_bytes
      owi_crc_string_def crc_zero)

section \<open>Properties of the two-wire engine\<close>

subsection \<open>One operation of the peripheral\<close>

lemma flag_cmds:
  "TWI_START_CONDITION AND TWI_INTERRUPT_FLAG \<noteq> 0"
  "TWI_START_TRANSMISSION AND TWI_INTERRUPT_FLAG \<noteq> 0"
  "TWI_RETURN_ACK AND TWI_INTERRUPT_FLAG \<noteq> 0"
  "TWI_RETURN_NACK AND TWI_INTERRUPT_FLAG \<noteq> 0"
  by (simp_all add: TWI_START_CONDITION_def TWI_START_TRANSMISSION_def TWI_RETURN_ACK_def
      TWI_RETURN_NACK_def TWI_INTERRUPT_FLAG_def)

lemma flag_cleared: "(v AND NOT TWI_INTERRUPT_FLAG) AND TWI_INTERRUPT_FLAG = 0"
  by (simp add: word_bw_assocs)

lemma sel_write_TWCR [simp]:
  "twi_address (write_TWCR v s) = twi_address s"
  "twi_enabled (write_TWCR v s) = twi_enabled s"
  "peripheral (write_TWCR v s) = peripheral s"
  "TWSR (write_TWCR v s) = TWSR s"
  "TWDR (write_TWCR v s) = TWDR s"
  "twi_log (write_TWCR v s) = twi_log s @ [Write_TWCR v]"
  by (simp_all add: write_TWCR_def)

lemma sel_write_TWDR [simp]:
  "twi_address (write_TWDR v s) = twi_address s"
  "twi_enabled (write_TWDR v s) = twi_enabled s"
  "peripheral (write_TWDR v s) = peripheral s"
  "TWSR (write_TWDR v s) = TWSR s"
  "TWDR (write_TWDR v s) = v"
  "twi_log (write_TWDR v s) = twi_log s @ [Write_TWDR v]"
  by (simp_all add: write_TWDR_def)

lemma sel_twi_complete [simp]:
  "twi_address (twi_complete r s) = twi_address s"
  "twi_enabled (twi_complete r s) = twi_enabled s"
  "peripheral (twi_complete r s) = tl (peripheral s)"
  "TWSR (twi_complete r s) = status r"
  "TWDR (twi_complete r s) = rdata r"
  "twi_log (twi_complete r s) = twi_log s"
  by (simp_all add: twi_complete_def)

lemma wait_after_write:
  assumes "v AND TWI_INTERRUPT_FLAG \<noteq> 0"
  shows "wait_TWINT (write_TWCR v s) =
     (case peripheral s of
        [] \<Rightarrow> Inl (Hang (write_TWCR v s))
      | r # rs \<Rightarrow> Inr (twi_complete r (write_TWCR v s)))"
proof -
  have "TWCR (write_TWCR v s) AND TWI_INTERRUPT_FLAG = 0"
    using assms by (simp add: write_TWCR_def flag_cleared)
  then show ?thesis by (simp add: wait_TWINT_def)
qed

lemma twi_open_cases:
  "twi_open address s =
    (case peripheral s of
       [] \<Rightarrow> Inl (Hang (write_TWCR TWI_START_CONDITION (s\<lparr>twi_address := address\<rparr>)))
     | r1 # rs1 \<Rightarrow>
        (let s2 = twi_complete r1 (write_TWCR TWI_START_CONDITION (s\<lparr>twi_address := address\<rparr>))
         in if status r1 AND TWI_PRESCALER_MASK \<noteq> TWI_START then Inr (0, s2)
            else (case rs1 of
                    [] \<Rightarrow> Inl (Hang (write_TWCR TWI_START_TRANSMISSION
                                       (write_TWDR (push_bit 1 address) s2)))
                  | r2 # rs2 \<Rightarrow>
                      (let s4 = twi_complete r2 (write_TWCR TWI_START_TRANSMISSION
                                       (write_TWDR (push_bit 1 address) s2))
                       in if status r2 AND TWI_PRESCALER_MASK \<noteq> TWI_MT_SLA_ACK then Inr (0, s4)
                          else Inr (1, s4)))))"
  by (simp add: twi_open_def wait_after_write flag_cmds Let_def split: list.splits)

lemma twi_write_ch_cases:
  "twi_write_ch data s =
    (case peripheral s of
       [] \<Rightarrow> Inl (Hang (write_TWCR TWI_START_TRANSMISSION (write_TWDR data s)))
     | r # rs \<Rightarrow>
        (let s1 = twi_complete r (write_TWCR TWI_START_TRANSMISSION (write_TWDR data s))
         in if status r AND TWI_PRESCALER_MASK \<noteq> TWI_MT_DATA_ACK then Inr (0, s1)
            else Inr (1, s1)))"
  by (simp add: twi_write_ch_def wait_after_write flag_cmds Let_def split: list.splits)

lemma twi_register_cases:
  "twi_register reg s =
    (case peripheral s of
       [] \<Rightarrow> Inl (Hang (write_TWCR TWI_START_TRANSMISSION (write_TWDR reg s)))
     | r1 # rs1 \<Rightarrow>
        (let s1 = twi_complete r1 (write_TWCR TWI_START_TRANSMISSION (write_TWDR reg s))
         in if status r1 AND TWI_PRESCALER_MASK \<noteq> TWI_MT_DATA_ACK then Inr (0, s1)
            else (case rs1 of
               [] \<Rightarrow> Inl (Hang (write_TWCR TWI_START_CONDITION s1))
             | r2 # rs2 \<Rightarrow>
                (let s2 = twi_complete r2 (write_TWCR TWI_START_CONDITION s1)
                 in if status r2 AND TWI_PRESCALER_MASK \<noteq> TWI_REP_START then Inr (0, s2)
                    else (case rs2 of
                       [] \<Rightarrow> Inl (Hang (write_TWCR TWI_START_TRANSMISSION
                               (write_TWDR (push_bit 1 (twi_address s) OR 0x01) s2)))
                     | r3 # rs3 \<Rightarrow>
                        (let s4 = twi_complete r3 (write_TWCR TWI_START_TRANSMISSION
                               (write_TWDR (push_bit 1 (twi_address s) OR 0x01) s2))
                         in if status r3 AND TWI_PRESCALER_MASK \<noteq> TWI_MR_SLA_ACK
                            then Inr (0, s4) else Inr (1, s4)))))))"
  by (simp add: twi_register_def wait_after_write flag_cmds Let_def split: list.splits)

lemma twi_read_str_last_cases:
  "twi_read_str_last ptr data s =
    (case peripheral s of
       [] \<Rightarrow> Inl (Hang (write_TWCR TWI_RETURN_NACK s))
     | r # rs \<Rightarrow>
        (let s1 = twi_complete r (write_TWCR TWI_RETURN_NACK s)
         in if status r AND TWI_PRESCALER_MASK \<noteq> TWI_MR_DATA_NACK then Inr (0, data, s1)
            else if ptr < length data then Inr (1, data[ptr := rdata r], s1)
            else Inl Out_Of_Bounds))"
  by (simp add: twi_read_str_last_def wait_after_write flag_cmds Let_def split: list.splits)

lemma twi_read_ch_cases:
  "twi_read_ch reg data s =
    (case twi_register reg s of
       Inl e \<Rightarrow> Inl e
     | Inr (r, s1) \<Rightarrow>
        (case peripheral s1 of
           [] \<Rightarrow> Inl (Hang (write_TWCR TWI_RETURN_NACK s1))
         | r4 # rs4 \<Rightarrow>
            (let s2 = twi_complete r4 (write_TWCR TWI_RETURN_NACK s1)
             in if status r4 AND TWI_PRESCALER_MASK \<noteq> TWI_MR_DATA_NACK then Inr (0, data, s2)
                else Inr (1, rdata r4, s2))))"
  by (simp add: twi_read_ch_def wait_after_write flag_cmds Let_def split: list.splits sum.splits)

text \<open>
  What \<open>twi_write_str\<close> hands to the peripheral: whenever the call returns, the log has
  grown by copies of one and the same byte, the one \<open>ptr\<close> points to.
\<close>

lemma twi_write_ch_log:
  "twi_write_ch b s = Inr (r, s1) \<Longrightarrow>
   twi_log s1 = twi_log s @ [Write_TWDR b, Write_TWCR TWI_START_TRANSMISSION]"
  by (auto simp: twi_write_ch_cases Let_def split: list.splits if_splits)

lemma twi_write_str_loop_log:
  "twi_write_str_loop c n ptr data s = Inr (r, s') \<Longrightarrow>
   \<exists>k. twi_log s' =
     twi_log s @ concat (replicate k [Write_TWDR (data ! ptr), Write_TWCR TWI_START_TRANSMISSION])"
proof (induction c n ptr data s rule: twi_write_str_loop.induct)
  case (1 c n ptr data s)
  show ?case
  proof (cases "c < n")
    case False
    with "1.prems" have "s' = s" by (simp add: twi_write_str_loop.simps [of c n])
    then show ?thesis by (intro exI [of _ 0]) simp
  next
    case True
    with "1.prems" obtain r1 s1 where
      ptr: "ptr < length data" and
      w: "twi_write_ch (data ! ptr) s = Inr (r1, s1)" and
      rest: "if r1 = 0 then s' = s1 else twi_write_str_loop (c + 1) n ptr data s1 = Inr (r, s')"
      by (auto simp: twi_write_str_loop.simps [of c n] split: if_splits sum.splits)
    have log1: "twi_log s1 = twi_log s @ [Write_TWDR (data ! ptr), Write_TWCR TWI_START_TRANSMISSION]"
      using w by (rule twi_write_ch_log)
    show ?thesis
    proof (cases "r1 = 0")
      case True
      with rest have "s' = s1" by simp
      with log1 show ?thesis by (intro exI [of _ 1]) simp
    next
      case False
      with rest have "twi_write_str_loop (c + 1) n ptr data s1 = Inr (r, s')" by simp
      from "1.IH" [OF \<open>c < n\<close> ptr w refl False this]
      obtain k where "twi_log s' = twi_log s1 @
          concat (replicate k [Write_TWDR (data ! ptr), Write_TWCR TWI_START_TRANSMISSION])"
        by blast
      with log1 show ?thesis by (intro exI [of _ "Suc k"]) simp
    qed
  qed
qed

subsection \<open>The claims\<close>

text \<open>
  C1. The claim fails on the code. \<open>twi_register\<close> checks the status of its three
  steps and returns 0 at the first mismatch, but \<open>twi_read_ch\<close> and \<open>twi_read_str\<close>
  do not look at what it returns. When the address with the read bit is not
  acknowledged and the next operation ends with the status of a not-acknowledged read,
  \<open>twi_register\<close> returns 0 while \<open>twi_read_ch\<close> and \<open>twi_read_str\<close> return 1 and
  store the byte \<open>0xFF\<close>.
\<close>

theorem twi_read_ignores_register_failure:
  "(\<exists>s'. twi_register 0x00 (twi_idle nack_address) = Inr (0, s')) \<and>
   (\<exists>s'. twi_read_ch 0x00 0x00 (twi_idle nack_address) = Inr (1, 0xFF, s')) \<and>
   (\<exists>s'. twi_read_str 0x00 [0x00] 1 (twi_idle nack_address) = Inr (1, [0xFF], s'))"
  by (simp add: twi_read_ch_cases twi_read_str_def twi_read_str_loop.simps [of 0 1]
        twi_read_str_last_cases
        twi_register_cases nack_address_def twi_idle_def Let_def TWI_PRESCALER_MASK_def
        TWI_MT_DATA_ACK_def TWI_REP_START_def TWI_MR_SLA_ACK_def TWI_MR_DATA_NACK_def)

text \<open>
  C2. The claim fails on the code. The loop of \<open>twi_write_str\<close> never advances
  \<open>ptr\<close>: for the array \<open>{0x01, 0x02}\<close> and \<open>n = 2\<close>, with both bytes acknowledged,
  the call returns 1 after handing the byte \<open>0x01\<close> to the peripheral twice.
\<close>

theorem twi_write_str_repeats_first_byte:
  "\<exists>s'. twi_write_str [0x01, 0x02] 2 (twi_idle two_acks) = Inr (1, s') \<and>
      twi_log s' = [Write_TWDR 0x01, Write_TWCR TWI_START_TRANSMISSION,
                    Write_TWDR 0x01, Write_TWCR TWI_START_TRANSMISSION]"
  by (simp add: twi_write_str_def twi_write_str_loop.simps [of 0 2] twi_write_str_loop.simps [of 1 2]
        twi_write_str_loop.simps [of 2 2]
        twi_write_ch_cases two_acks_def twi_idle_def Let_def TWI_PRESCALER_MASK_def
        TWI_MT_DATA_ACK_def)

text \<open>
  C7. \<open>twi_open\<close> returns 1 exactly when the peripheral completes two operations, the
  first with status \<open>TWI_START\<close> and the second with status \<open>TWI_MT_SLA_ACK\<close> (both
  after masking). When the first status differs it returns 0 and the only command
  issued is the start condition: the address byte is neither loaded nor sent. When the
  second status differs it returns 0 and nothing follows the transmission of the
  address byte.
\<close>

theorem twi_open_status_checks:
  "((\<exists>s'. twi_open address s = Inr (1, s')) \<longleftrightarrow>
      (\<exists>r1 r2 rest. peripheral s = r1 # r2 # rest \<and>
         status r1 AND TWI_PRESCALER_MASK = TWI_START \<and>
         status r2 AND TWI_PRESCALER_MASK = TWI_MT_SLA_ACK)) \<and>
   (\<forall>r1 rest. peripheral s = r1 # rest \<and> status r1 AND TWI_PRESCALER_MASK \<noteq> TWI_START \<longrightarrow>
      (\<exists>s'. twi_open address s = Inr (0, s') \<and> peripheral s' = rest \<and>
         twi_log s' = twi_log s @ [Write_TWCR TWI_START_CONDITION])) \<and>
   (\<forall>r1 r2 rest. peripheral s = r1 # r2 # rest \<and>
        status r1 AND TWI_PRESCALER_MASK = TWI_START \<and>
        status r2 AND TWI_PRESCALER_MASK \<noteq> TWI_MT_SLA_ACK \<longrightarrow>
      (\<exists>s'. twi_open address s = Inr (0, s') \<and> peripheral s' = rest \<and>
         twi_log s' = twi_log s @ [Write_TWCR TWI_START_CONDITION, Write_TWDR (push_bit 1 address),
                                   Write_TWCR TWI_START_TRANSMISSION]))"
  by (auto simp: twi_open_cases Let_def split: list.splits)

theorem twi_open_status_checks_witness:
  "(\<exists>s'. twi_open 0x68 (twi_idle [\<lparr>status = 0x08, rdata = 0\<rparr>, \<lparr>status = 0x18, rdata = 0\<rparr>])
            = Inr (1, s')) \<and>
   (\<exists>s'. twi_open 0x68 (twi_idle [\<lparr>status = 0x08, rdata = 0\<rparr>, \<lparr>status = 0x20, rdata = 0\<rparr>])
            = Inr (0, s') \<and> peripheral s' = [] \<and>
          twi_log s' = [Write_TWCR TWI_START_CONDITION, Write_TWDR 0xD0,
                        Write_TWCR TWI_START_TRANSMISSION])"
  using twi_open_status_checks [of "0x68"
          "twi_idle [\<lparr>status = 0x08, rdata = 0\<rparr>, \<lparr>status = 0x18, rdata = 0\<rparr>]"]
        twi_open_status_checks [of "0x68"
          "twi_idle [\<lparr>status = 0x08, rdata = 0\<rparr>, \<lparr>status = 0x20, rdata = 0\<rparr>]"]
  by (simp add: twi_idle_def TWI_PRESCALER_MASK_def TWI_START_def TWI_MT_SLA_ACK_def)

text \<open>
  C8. Calling \<open>twi_enable\<close> twice gives the state that calling it once gives, and
  \<open>twi_disable\<close> changes nothing when \<open>_twi_enabled\<close> is 0.
\<close>

theorem twi_enable_idempotent:
  "twi_enable (twi_enable s) = twi_enable s \<and> (twi_enabled s = 0 \<longrightarrow> twi_disable s = s)"
  by (simp add: twi_enable_def twi_disable_def Let_def write_TWCR_def)

theorem twi_enable_idempotent_witness:
  "twi_enabled twi_reset_state = 0 \<and>
   twi_disable twi_reset_state = twi_reset_state \<and>
   twi_enable (twi_enable twi_reset_state) = twi_enable twi_reset_state \<and>
   twi_enable twi_reset_state =
     twi_reset_state\<lparr>twi_enabled := 1, PORTC := 0x30, TWBR := 72, TWCR := 0x45,
                       twi_log := [Write_TWCR 0x45]\<rparr>"
  using twi_enable_idempotent [of twi_reset_state]
  by (simp add: twi_reset_state_def twi_enable_def write_TWCR_def Let_def F_CPU_def F_TWI_def
      TWI_PINMASK_def TWI_ENABLE_MASK_def TWI_INTERRUPT_FLAG_def)

lemma twi_read_str_loop_skipped:
  assumes "INT_MIN <s n" "n \<le>s 0"
  shows "\<not> 0 <s n - 1"
proof -
  have a: "- 32768 < sint n" "sint n \<le> 0"
    using assms by (simp_all add: word_sless_alt word_sle_eq INT_MIN_def)
  then have "- (2 ^ 15) \<le> sint n - 1" "sint n - 1 < 2 ^ 15" by simp_all
  then have "signed_take_bit 15 (sint n - 1) = sint n - 1"
    by (intro signed_take_bit_int_eq_self) simp_all
  then have "sint (n - 1) = sint n - 1" by (simp add: sint_word_ariths)
  with a show ?thesis by (simp add: word_sless_alt)
qed

lemma twi_register_read_acks:
  "\<exists>s1. twi_register 0x00 (twi_idle read_acks) = Inr (1, s1) \<and>
     peripheral s1 = [\<lparr>status = 0x58, rdata = 0x7F\<rparr>] \<and>
     twi_log s1 = [Write_TWDR 0x00, Write_TWCR TWI_START_TRANSMISSION,
                   Write_TWCR TWI_START_CONDITION, Write_TWDR 0x4F,
                   Write_TWCR TWI_START_TRANSMISSION]"
  by (simp add: twi_register_cases read_acks_def twi_idle_def Let_def TWI_PRESCALER_MASK_def
      TWI_MT_DATA_ACK_def TWI_REP_START_def TWI_MR_SLA_ACK_def)

text \<open>
  C9. The claim holds for every \<open>n \<le> 0\<close> except the least \<open>int\<close>, where \<open>n - 1\<close>
  overflows. Amended: for \<open>INT_MIN < n \<le> 0\<close> the loop of \<open>twi_read_str\<close> does not
  run: once \<open>twi_register\<close> has returned, with either result, the call is the code
  after the loop, the read with not-acknowledge, with \<open>ptr\<close> still at \<open>data[0]\<close>.
  When that read ends with status \<open>TWI_MR_DATA_NACK\<close> the byte received is stored in
  \<open>data[0]\<close>, which is outside the buffer when the buffer is empty.
\<close>

theorem twi_read_str_nonpositive_count:
  "INT_MIN <s n \<Longrightarrow> n \<le>s 0 \<Longrightarrow> twi_register reg s = Inr (r, s1) \<Longrightarrow>
   twi_read_str reg data n s = twi_read_str_last 0 data s1 \<and>
   (\<forall>resp rest.
      peripheral s1 = resp # rest \<and> status resp AND TWI_PRESCALER_MASK = TWI_MR_DATA_NACK \<longrightarrow>
      twi_read_str reg data n s =
        (if data = [] then Inl Out_Of_Bounds
         else Inr (1, data[0 := rdata resp],
                   twi_complete resp (write_TWCR TWI_RETURN_NACK s1))))"
  by (simp add: twi_read_str_def twi_read_str_loop.simps [of 0 n] twi_read_str_loop_skipped
      twi_read_str_last_cases)

theorem twi_read_str_nonpositive_count_witness:
  "INT_MIN <s 0 \<and> (0 :: int16) \<le>s 0 \<and> INT_MIN <s - 3 \<and> (- 3 :: int16) \<le>s 0 \<and>
   twi_read_str 0x00 [] 0 (twi_idle read_acks) = Inl Out_Of_Bounds \<and>
   twi_read_outcome (twi_read_str 0x00 [0x11, 0x22] (- 3) (twi_idle read_acks)) =
     Some (1, [0x7F, 0x22],
       [Write_TWDR 0x00, Write_TWCR TWI_START_TRANSMISSION, Write_TWCR TWI_START_CONDITION,
        Write_TWDR 0x4F, Write_TWCR TWI_START_TRANSMISSION, Write_TWCR TWI_RETURN_NACK])"
proof -
  obtain s1 where reg: "twi_register 0x00 (twi_idle read_acks) = Inr (1, s1)"
    and per: "peripheral s1 = \<lparr>status = 0x58, rdata = 0x7F\<rparr> # []"
    and log: "twi_log s1 = [Write_TWDR 0x00, Write_TWCR TWI_START_TRANSMISSION,
                   Write_TWCR TWI_START_CONDITION, Write_TWDR 0x4F,
                   Write_TWCR TWI_START_TRANSMISSION]"
    using twi_register_read_acks by auto
  have st: "status \<lparr>status = 0x58, rdata = 0x7F\<rparr> AND TWI_PRESCALER_MASK = TWI_MR_DATA_NACK"
    by (simp add: TWI_PRESCALER_MASK_def TWI_MR_DATA_NACK_def)
  have z: "INT_MIN <s 0" "(0 :: int16) \<le>s 0" and m: "INT_MIN <s - 3" "(- 3 :: int16) \<le>s 0"
    by (simp_all add: word_sless_alt word_sle_eq INT_MIN_def)
  note store = conjI [OF per st]
  show ?thesis
    using twi_read_str_nonpositive_count [OF z reg, THEN conjunct2, rule_format, OF store, of "[]"]
          twi_read_str_nonpositive_count [OF m reg, THEN conjunct2, rule_format, OF store,
            of "[0x11, 0x22]"] z m log
    by (simp add: twi_read_outcome_def)
qed

text \<open>
  The least \<open>int\<close>: \<open>n - 1\<close> wraps round to the greatest \<open>int\<close>, the loop is entered
  and the first read is a read with acknowledge. In front of the same peripheral the
  call returns 0 and leaves the buffer as it was.
\<close>

theorem twi_read_str_int_min_enters_loop:
  "INT_MIN \<le>s 0 \<and>
   twi_read_outcome (twi_read_str 0x00 [0x11, 0x22] INT_MIN (twi_idle read_acks)) =
     Some (0, [0x11, 0x22],
       [Write_TWDR 0x00, Write_TWCR TWI_START_TRANSMISSION, Write_TWCR TWI_START_CONDITION,
        Write_TWDR 0x4F, Write_TWCR TWI_START_TRANSMISSION, Write_TWCR TWI_RETURN_ACK])"
proof -
  obtain s1 where reg: "twi_register 0x00 (twi_idle read_acks) = Inr (1, s1)"
    and per: "peripheral s1 = [\<lparr>status = 0x58, rdata = 0x7F\<rparr>]"
    and log: "twi_log s1 = [Write_TWDR 0x00, Write_TWCR TWI_START_TRANSMISSION,
                   Write_TWCR TWI_START_CONDITION, Write_TWDR 0x4F,
                   Write_TWCR TWI_START_TRANSMISSION]"
    using twi_register_read_acks by auto
  have enter: "0 <s INT_MIN - 1" and le: "INT_MIN \<le>s 0"
    by (simp_all add: word_sless_alt word_sle_eq INT_MIN_def)
  have "twi_read_str_loop 0 INT_MIN 0 [0x11, 0x22] s1 =
      Inr (0, [0x11, 0x22], twi_complete \<lparr>status = 0x58, rdata = 0x7F\<rparr>
                               (write_TWCR TWI_RETURN_ACK s1))"
    using enter per
    by (simp add: twi_read_str_loop.simps [of 0 INT_MIN] wait_after_write flag_cmds
        TWI_PRESCALER_MASK_def TWI_MR_DATA_ACK_def)
  then show ?thesis
    using reg log le by (simp add: twi_read_str_def twi_read_outcome_def)
qed

text \<open>
  C10. \<open>twi_open\<close> stores its argument in \<open>_twi_address\<close> before anything else:
  whether the call returns 1, returns 0 at either check or spins in a busy-wait, the
  state holds the new address.
\<close>

theorem twi_open_stores_address:
  "(case twi_open address s of
      Inl (Hang s') \<Rightarrow> twi_address s' = address
    | Inl Out_Of_Bounds \<Rightarrow> False
    | Inr (r, s') \<Rightarrow> twi_address s' = address)"
  by (simp add: twi_open_cases Let_def split: list.splits)

theorem twi_open_stores_address_witness:
  "twi_address (twi_idle [\<lparr>status = 0x00, rdata = 0\<rparr>]) = 0x27 \<and>
   (\<exists>s'. twi_open 0x68 (twi_idle [\<lparr>status = 0x00, rdata = 0\<rparr>]) = Inr (0, s') \<and>
      twi_address s' = 0x68)"
  using twi_open_stores_address [of "0x68" "twi_idle [\<lparr>status = 0x00, rdata = 0\<rparr>]"]
  by (simp add: twi_open_cases twi_idle_def Let_def TWI_PRESCALER_MASK_def TWI_START_def)

end
